theory Spec2Isabelle
  imports Complex_Main "HOL-Library.Log_Nat"
begin

section \<open>Forklift lift controller: data model\<close>

text \<open>
  The program is one C++ file, \<^verbatim>\<open>main.cpp\<close>. Every \<^verbatim>\<open>struct\<close> is a record, every
  \<^verbatim>\<open>enum class\<close> a datatype. A member function that mutates its object takes the object
  and returns the new one. A \<^verbatim>\<open>double\<close> field is a \<^typ>\<open>real\<close> that holds the value of a
  finite double; NaN and the infinities are outside the model. The controller only
  compares doubles and stores constants. \<^verbatim>\<open>LiftPlant::step\<close> computes with them, and there
  every addition, subtraction and multiplication rounds its exact result to the nearest
  double.
\<close>

record Inputs =
  cmdUp :: bool
  cmdDown :: bool
  cmdHold :: bool
  estop :: bool
  resetFault :: bool
  topLimit :: bool
  bottomLimit :: bool
  loadKg :: real

record Outputs =
  motorEnable :: bool
  motorDir :: int
  brakeEngaged :: bool
  faultLamp :: bool

text \<open>
  \<^verbatim>\<open>enum class FaultCode { None = 0, LimitViolation = 10, Overload = 20, EmergencyStop = 30 }\<close>.
  The enumerator \<^verbatim>\<open>None\<close> is called \<open>NoneFault\<close> here, since \<open>None\<close> is the constructor
  of \<^typ>\<open>'a option\<close>.
\<close>

datatype FaultCode = NoneFault | LimitViolation | Overload | EmergencyStop

text \<open>\<^verbatim>\<open>faultPriority\<close> is the cast of the enumerator to its integer value.\<close>

fun faultPriority :: "FaultCode \<Rightarrow> int" where
  "faultPriority NoneFault = 0"
| "faultPriority LimitViolation = 10"
| "faultPriority Overload = 20"
| "faultPriority EmergencyStop = 30"

record FaultManager =
  latched :: FaultCode

definition clear :: "FaultManager \<Rightarrow> FaultManager" where
  "clear fm = fm\<lparr>latched := NoneFault\<rparr>"

definition latch :: "FaultCode \<Rightarrow> FaultManager \<Rightarrow> FaultManager" where
  "latch f fm = (if faultPriority f > faultPriority (latched fm) then fm\<lparr>latched := f\<rparr> else fm)"

definition hasFault :: "FaultManager \<Rightarrow> bool" where
  "hasFault fm \<longleftrightarrow> latched fm \<noteq> NoneFault"

text \<open>
  A sequence of \<^verbatim>\<open>latch\<close> calls on one manager: \<open>latchTrace fm fs\<close> lists the manager
  after each call, \<open>latchAll fm fs\<close> is the manager after the last one.
\<close>

fun latchTrace :: "FaultManager \<Rightarrow> FaultCode list \<Rightarrow> FaultManager list" where
  "latchTrace fm [] = []"
| "latchTrace fm (f # fs) = latch f fm # latchTrace (latch f fm) fs"

fun latchAll :: "FaultManager \<Rightarrow> FaultCode list \<Rightarrow> FaultManager" where
  "latchAll fm [] = fm"
| "latchAll fm (f # fs) = latchAll (latch f fm) fs"

datatype LiftState = Holding | Lifting | Lowering | Faulted

subsection \<open>LiftPlant\<close>

record LiftPlant =
  position :: real
  velocity :: real
  targetVel :: real

subsection \<open>Double arithmetic\<close>

text \<open>
  IEEE 754 binary64 with round to nearest, ties to even, on the reals. \<open>pow2 q\<close> is the
  power of two with exponent \<open>q\<close>; \<open>expo x\<close> is the exponent \<open>e\<close> with
  \<open>pow2 e \<le> \<bar>x\<bar> < pow2 (e + 1)\<close>, computed from the bit length of an integer;
  \<open>roundEven\<close> rounds to the nearest integer, a tie to the even one. \<open>rd x\<close> is the
  double nearest to \<open>x\<close>: 53 significant bits for a normal number, multiples of
  \<open>pow2 (- 1074)\<close> below \<open>pow2 (- 1022)\<close>. A result beyond the largest double stays
  finite here, where the machine gives an infinity.
\<close>

definition pow2 :: "int \<Rightarrow> real" where
  "pow2 q = (if 0 \<le> q then 2 ^ nat q else 1 / 2 ^ nat (- q))"

definition expo :: "real \<Rightarrow> int" where
  "expo x = (if 1 \<le> \<bar>x\<bar> then bitlen \<lfloor>\<bar>x\<bar>\<rfloor> - 1 else - bitlen (\<lceil>1 / \<bar>x\<bar>\<rceil> - 1))"

definition roundEven :: "real \<Rightarrow> int" where
  "roundEven y =
     (let f = \<lfloor>y\<rfloor>; r = y - of_int f
      in if r < 1 / 2 then f else if 1 / 2 < r then f + 1 else if even f then f else f + 1)"

definition rd :: "real \<Rightarrow> real" where
  "rd x =
     (if x = 0 then 0
      else (let q = max (expo x) (- 1022) - 52
            in of_int (roundEven (x / pow2 q)) * pow2 q))"

text \<open>
  The machine operations \<^verbatim>\<open>+\<close>, \<^verbatim>\<open>-\<close> and \<^verbatim>\<open>*\<close> on doubles: the exact result, rounded. An
  operand that is not a double, such as a decimal literal, is read as the double nearest
  to it; a double operand is left as it is.
\<close>

definition fadd :: "real \<Rightarrow> real \<Rightarrow> real" where
  "fadd a b = rd (rd a + rd b)"

definition fsub :: "real \<Rightarrow> real \<Rightarrow> real" where
  "fsub a b = rd (rd a - rd b)"

definition fmul :: "real \<Rightarrow> real \<Rightarrow> real" where
  "fmul a b = rd (rd a * rd b)"

subsection \<open>The plant step\<close>

text \<open>
  \<^verbatim>\<open>std::clamp(v, lo, hi)\<close>: \<open>lo\<close> when \<open>v < lo\<close>, otherwise \<open>hi\<close> when \<open>hi < v\<close>,
  otherwise \<open>v\<close>.
\<close>

definition clamp :: "real \<Rightarrow> real \<Rightarrow> real \<Rightarrow> real" where
  "clamp v lo hi = (if v < lo then lo else if hi < v then hi else v)"

text \<open>The local constant \<^verbatim>\<open>accel\<close> of \<^verbatim>\<open>LiftPlant::step\<close>.\<close>

definition accel :: real where
  "accel = 3.0"

text \<open>
  \<^verbatim>\<open>LiftPlant::step\<close> is three blocks in a row. The first (lines 101 to 105) computes the
  clamped velocity change \<open>clampedDv\<close> and adds it to the velocity (\<open>accelerate\<close>); the
  second integrates and clamps the position (\<open>integrate\<close>); the third zeroes the velocity
  at an end of travel (\<open>endStops\<close>, two \<^verbatim>\<open>if\<close> statements in sequence).
\<close>

definition clampedDv :: "real \<Rightarrow> LiftPlant \<Rightarrow> real" where
  "clampedDv dt p =
     (let dv = fsub (targetVel p) (velocity p);
          maxDv = fmul accel dt
      in clamp dv (- maxDv) maxDv)"

definition accelerate :: "real \<Rightarrow> LiftPlant \<Rightarrow> LiftPlant" where
  "accelerate dt p = p\<lparr>velocity := fadd (velocity p) (clampedDv dt p)\<rparr>"

definition integrate :: "real \<Rightarrow> LiftPlant \<Rightarrow> LiftPlant" where
  "integrate dt p =
     (let p1 = p\<lparr>position := fadd (position p) (fmul (velocity p) dt)\<rparr>
      in p1\<lparr>position := clamp (position p1) 0 1\<rparr>)"

definition endStops :: "LiftPlant \<Rightarrow> LiftPlant" where
  "endStops p =
     (let p1 = (if position p \<le> 0 \<and> velocity p < 0 then p\<lparr>velocity := 0\<rparr> else p)
      in (if position p1 \<ge> 1 \<and> velocity p1 > 0 then p1\<lparr>velocity := 0\<rparr> else p1))"

definition step :: "real \<Rightarrow> LiftPlant \<Rightarrow> LiftPlant" where
  "step dt p = endStops (integrate dt (accelerate dt p))"

text \<open>
  The plant step as the specification words it, with the machine operations: the velocity
  change is the difference to the target limited to \<open>accel * dt\<close> in magnitude, the position
  is limited to the unit interval, and the velocity becomes zero under one combined
  end-of-travel condition.
\<close>

definition step_spec :: "real \<Rightarrow> LiftPlant \<Rightarrow> LiftPlant" where
  "step_spec dt p =
     (let dv = max (- fmul accel dt) (min (fmul accel dt) (fsub (targetVel p) (velocity p)));
          v1 = fadd (velocity p) dv;
          x1 = max 0 (min 1 (fadd (position p) (fmul v1 dt)));
          v2 = (if (x1 \<le> 0 \<and> v1 < 0) \<or> (x1 \<ge> 1 \<and> v1 > 0) then 0 else v1)
      in \<lparr>position = x1, velocity = v2, targetVel = targetVel p\<rparr>)"

subsection \<open>LiftController\<close>

record LiftController =
  state :: LiftState
  faults :: FaultManager
  lastTopLimit :: bool
  lastBottomLimit :: bool

text \<open>
  The tunables are \<^verbatim>\<open>const\<close> members with default initialisers. A decimal literal
  stands for the double nearest to it; the controller uses these values in comparisons
  and assignments only.
\<close>

definition maxLoadKg :: real where
  "maxLoadKg = 1200.0"

definition liftSpeed :: real where
  "liftSpeed = 0.35"

definition lowerSpeed :: real where
  "lowerSpeed = 0.30"

definition safeStopSpeedEps :: real where
  "safeStopSpeedEps = 0.01"

text \<open>The statement \<^verbatim>\<open>if (b) faults.latch(f);\<close> on the controller.\<close>

definition latchIf :: "bool \<Rightarrow> FaultCode \<Rightarrow> LiftController \<Rightarrow> LiftController" where
  "latchIf b f c = (if b then c\<lparr>faults := latch f (faults c)\<rparr> else c)"

text \<open>
  Step 1 of \<^verbatim>\<open>LiftController::update\<close> (lines 135 to 152): the guarded \<^verbatim>\<open>latch\<close> calls in
  the order of the source. \<open>state c\<close> is the state left by the previous scan.
\<close>

definition latchFaults :: "Inputs \<Rightarrow> LiftController \<Rightarrow> LiftController" where
  "latchFaults i c =
     (let c1 = latchIf (estop i) EmergencyStop c;
          c2 = latchIf (loadKg i > maxLoadKg) Overload c1
      in if topLimit i \<and> bottomLimit i then latchIf True LimitViolation c2
         else
           (let c3 = latchIf (state c2 = Lifting \<and> topLimit i) LimitViolation c2;
                c4 = latchIf (state c3 = Lowering \<and> bottomLimit i) LimitViolation c3;
                c5 = latchIf (cmdUp i \<and> topLimit i) LimitViolation c4;
                c6 = latchIf (cmdDown i \<and> bottomLimit i) LimitViolation c5
            in c6))"

text \<open>Step 2 (lines 156 to 158): the condition of the reset, and the reset.\<close>

definition resetGate :: "Inputs \<Rightarrow> LiftPlant \<Rightarrow> bool" where
  "resetGate i plant \<longleftrightarrow> resetFault i \<and> \<not> estop i \<and> \<bar>velocity plant\<bar> < safeStopSpeedEps"

definition allowReset :: "Inputs \<Rightarrow> LiftPlant \<Rightarrow> LiftController \<Rightarrow> LiftController" where
  "allowReset i plant c = (if resetGate i plant then c\<lparr>faults := clear (faults c)\<rparr> else c)"

text \<open>Step 3 (lines 161 to 177): the state is recomputed from the fault and the commands.\<close>

definition transition :: "Inputs \<Rightarrow> LiftController \<Rightarrow> LiftController" where
  "transition i c =
     (if hasFault (faults c) then c\<lparr>state := Faulted\<rparr>
      else
        (let up = cmdUp i; down = cmdDown i
         in if up \<and> \<not> down \<and> \<not> topLimit i then c\<lparr>state := Lifting\<rparr>
            else if down \<and> \<not> up \<and> \<not> bottomLimit i then c\<lparr>state := Lowering\<rparr>
            else c\<lparr>state := Holding\<rparr>))"

text \<open>
  Step 4 (lines 180 to 228): the \<^verbatim>\<open>switch\<close> on the state writes \<^verbatim>\<open>plant.targetVel\<close> and the
  outputs. \<open>out0\<close> is \<^verbatim>\<open>Outputs out{}\<close> after \<^verbatim>\<open>out.brakeEngaged = true\<close>.
\<close>

definition out0 :: Outputs where
  "out0 = \<lparr>motorEnable = False, motorDir = 0, brakeEngaged = True, faultLamp = False\<rparr>"

definition stopped :: "Outputs \<Rightarrow> Outputs" where
  "stopped out = out\<lparr>motorEnable := False, motorDir := 0, brakeEngaged := True\<rparr>"

definition driveOutputs :: "Inputs \<Rightarrow> LiftController \<Rightarrow> LiftPlant \<Rightarrow> Outputs \<times> LiftPlant" where
  "driveOutputs i c plant =
     (case state c of
        Faulted \<Rightarrow> ((stopped out0)\<lparr>faultLamp := True\<rparr>, plant\<lparr>targetVel := 0\<rparr>)
      | Holding \<Rightarrow> ((stopped out0)\<lparr>faultLamp := False\<rparr>, plant\<lparr>targetVel := 0\<rparr>)
      | Lifting \<Rightarrow>
          (if topLimit i
           then ((stopped out0)\<lparr>faultLamp := False\<rparr>, plant\<lparr>targetVel := 0\<rparr>)
           else (out0\<lparr>motorEnable := True, motorDir := 1, brakeEngaged := False, faultLamp := False\<rparr>,
                 plant\<lparr>targetVel := liftSpeed\<rparr>))
      | Lowering \<Rightarrow>
          (if bottomLimit i
           then ((stopped out0)\<lparr>faultLamp := False\<rparr>, plant\<lparr>targetVel := 0\<rparr>)
           else (out0\<lparr>motorEnable := True, motorDir := - 1, brakeEngaged := False, faultLamp := False\<rparr>,
                 plant\<lparr>targetVel := - lowerSpeed\<rparr>)))"

text \<open>
  \<^verbatim>\<open>LiftController::update\<close>: the four steps, then the two remembered limit inputs. The
  result is the returned \<^verbatim>\<open>Outputs\<close>, the controller and the plant after the call. The
  parameter \<^verbatim>\<open>dt\<close> is not read (\<^verbatim>\<open>(void)dt\<close>).
\<close>

definition update :: "real \<Rightarrow> Inputs \<Rightarrow> LiftController \<Rightarrow> LiftPlant \<Rightarrow> Outputs \<times> LiftController \<times> LiftPlant" where
  "update dt i c plant =
     (let c1 = latchFaults i c;
          c2 = allowReset i plant c1;
          c3 = transition i c2;
          (out, plant') = driveOutputs i c3 plant;
          c4 = c3\<lparr>lastTopLimit := topLimit i, lastBottomLimit := bottomLimit i\<rparr>
      in (out, c4, plant'))"

text \<open>
  A sequence of \<^verbatim>\<open>update\<close> calls on one controller. Each call has its own \<^verbatim>\<open>dt\<close>, inputs
  and plant, so whatever the caller does to the plant between two scans is covered.
\<close>

fun updateSeq :: "LiftController \<Rightarrow> (real \<times> Inputs \<times> LiftPlant) list \<Rightarrow> (Outputs \<times> LiftController \<times> LiftPlant) list" where
  "updateSeq c [] = []"
| "updateSeq c ((dt, i, plant) # rest) =
     (let r = update dt i c plant in r # updateSeq (fst (snd r)) rest)"

subsection \<open>The scan loop of main\<close>



text \<open>The objects \<^verbatim>\<open>main\<close> starts from, and the operator inputs of the lift scenario.\<close>

definition ctrl0 :: LiftController where
  "ctrl0 = \<lparr>state = Holding, faults = \<lparr>latched = NoneFault\<rparr>, lastTopLimit = False, lastBottomLimit = True\<rparr>"

definition plant0 :: LiftPlant where
  "plant0 = \<lparr>position = 0, velocity = 0, targetVel = 0\<rparr>"

definition in0 :: Inputs where
  "in0 = \<lparr>cmdUp = False, cmdDown = False, cmdHold = False, estop = False, resetFault = False,
          topLimit = False, bottomLimit = True, loadKg = 0\<rparr>"

definition cmdUpOnly :: Inputs where
  "cmdUpOnly = in0\<lparr>cmdUp := True\<rparr>"


section \<open>Double arithmetic\<close>

lemma pow2_powr: "pow2 q = 2 powr (of_int q)"
proof (cases "0 \<le> q")
  case True
  then show ?thesis
    by (simp add: pow2_def powr_realpow [symmetric])
next
  case False
  then have "real (nat (- q)) = - of_int q"
    by simp
  then have "(2::real) ^ nat (- q) = 2 powr (- of_int q)"
    using powr_realpow [of "2::real" "nat (- q)"] by simp
  then show ?thesis
    using False by (simp add: pow2_def powr_minus_divide)
qed

lemma pow2_pos: "0 < pow2 q"
  by (simp add: pow2_powr)

lemma pow2_add: "pow2 (a + b) = pow2 a * pow2 b"
  by (simp add: pow2_powr powr_add)

lemma pow2_mono: "a \<le> b \<Longrightarrow> pow2 a \<le> pow2 b"
  by (simp add: pow2_powr)

lemma pow2_less_iff: "pow2 a < pow2 b \<longleftrightarrow> a < b"
  by (simp add: pow2_powr)

lemma pow2_nat: "0 \<le> q \<Longrightarrow> pow2 q = 2 ^ nat q"
  by (simp add: pow2_def)

lemma pow2_neg: "q \<le> 0 \<Longrightarrow> pow2 q = 1 / 2 ^ nat (- q)"
  by (simp add: pow2_def)

lemma roundEven_floor: "\<lfloor>y\<rfloor> \<le> roundEven y \<and> roundEven y \<le> \<lfloor>y\<rfloor> + 1"
  by (simp add: roundEven_def Let_def)

lemma roundEven_err: "\<bar>of_int (roundEven y) - y\<bar> \<le> 1 / 2"
  unfolding roundEven_def Let_def by (auto simp add: abs_le_iff)

lemma roundEven_of_int: "roundEven (of_int m) = m"
  by (simp add: roundEven_def)

lemma roundEven_ge:
  assumes "of_int a \<le> y"
  shows "a \<le> roundEven y"
proof -
  have "a \<le> \<lfloor>y\<rfloor>"
    using assms by (simp add: le_floor_iff)
  then show ?thesis
    using roundEven_floor [of y] by linarith
qed

lemma roundEven_le:
  assumes "y \<le> of_int b"
  shows "roundEven y \<le> b"
proof (cases "\<lfloor>y\<rfloor> = b")
  case True
  then have "y = of_int b"
    using assms of_int_floor_le [of y] by simp
  then show ?thesis
    by (simp add: roundEven_of_int)
next
  case False
  have "\<lfloor>y\<rfloor> \<le> b"
    using assms by (simp add: floor_le_iff)
  with False have "\<lfloor>y\<rfloor> + 1 \<le> b"
    by simp
  then show ?thesis
    using roundEven_floor [of y] by simp
qed

lemma expo_bounds:
  assumes "x \<noteq> 0"
  shows "pow2 (expo x) \<le> \<bar>x\<bar> \<and> \<bar>x\<bar> < pow2 (expo x + 1)"
proof (cases "1 \<le> \<bar>x\<bar>")
  case True
  define n where "n = \<lfloor>\<bar>x\<bar>\<rfloor>"
  have n: "0 < n"
    using True by (simp add: n_def)
  have e: "expo x = bitlen n - 1"
    using True by (simp add: expo_def n_def)
  have k: "1 \<le> bitlen n"
    using n bitlen_eq_zero_iff [of n] bitlen_nonneg [of n] by linarith
  from bitlen_bounds [OF n] have b: "2 ^ nat (bitlen n - 1) \<le> n" "n < 2 ^ nat (bitlen n)"
    by simp_all
  have "pow2 (expo x) = of_int (2 ^ nat (bitlen n - 1))"
    using k by (simp add: e pow2_nat)
  also have "\<dots> \<le> of_int n"
    using b(1) by (simp only: of_int_le_iff)
  also have "\<dots> \<le> \<bar>x\<bar>"
    by (simp add: n_def)
  finally have lo: "pow2 (expo x) \<le> \<bar>x\<bar>" .
  have "n + 1 \<le> 2 ^ nat (bitlen n)"
    using b(2) by simp
  then have "real_of_int (n + 1) \<le> real_of_int (2 ^ nat (bitlen n))"
    by (simp only: of_int_le_iff)
  moreover have "\<bar>x\<bar> < real_of_int (n + 1)"
    by (simp add: n_def)
  moreover have "pow2 (expo x + 1) = real_of_int (2 ^ nat (bitlen n))"
    using k by (simp add: e pow2_nat)
  ultimately have "\<bar>x\<bar> < pow2 (expo x + 1)"
    by simp
  with lo show ?thesis by simp
next
  case False
  define a where "a = \<bar>x\<bar>"
  have a: "0 < a" "a < 1"
    using assms False by (simp_all add: a_def)
  define c where "c = \<lceil>1 / a\<rceil>"
  define k where "k = bitlen (c - 1)"
  have inv: "1 < 1 / a"
    using a by simp
  have c1: "1 / a \<le> of_int c" "of_int c - 1 < 1 / a"
    unfolding c_def by linarith+
  have c2: "0 < c - 1"
    using inv c1(1) by linarith
  have e: "expo x = - k"
    using False by (simp add: expo_def k_def c_def a_def)
  have k1: "1 \<le> k"
    using c2 bitlen_eq_zero_iff [of "c - 1"] bitlen_nonneg [of "c - 1"] unfolding k_def by linarith
  from bitlen_bounds [OF c2] have b: "2 ^ nat (k - 1) \<le> c - 1" "c - 1 < 2 ^ nat k"
    by (simp_all add: k_def)
  have "c \<le> 2 ^ nat k"
    using b(2) by simp
  then have "real_of_int c \<le> real_of_int (2 ^ nat k)"
    by (simp only: of_int_le_iff)
  also have "\<dots> = 2 ^ nat k"
    by simp
  finally have "1 / a \<le> 2 ^ nat k"
    using c1(1) by linarith
  then have "1 / 2 ^ nat k \<le> a"
    using a by (simp add: field_simps)
  then have lo: "pow2 (expo x) \<le> \<bar>x\<bar>"
    using k1 by (simp add: e pow2_neg a_def)
  have "real_of_int (2 ^ nat (k - 1)) \<le> real_of_int (c - 1)"
    using b(1) by (simp only: of_int_le_iff)
  moreover have "real_of_int (2 ^ nat (k - 1)) = 2 ^ nat (k - 1)"
    by simp
  moreover have "real_of_int (c - 1) = real_of_int c - 1"
    by simp
  ultimately have "2 ^ nat (k - 1) < 1 / a"
    using c1(2) by linarith
  then have "a < 1 / 2 ^ nat (k - 1)"
    using a by (simp add: field_simps)
  moreover have "pow2 (expo x + 1) = 1 / 2 ^ nat (k - 1)"
    using k1 by (simp add: e pow2_neg)
  ultimately have "\<bar>x\<bar> < pow2 (expo x + 1)"
    by (simp add: a_def)
  with lo show ?thesis by simp
qed

lemma expo_unique:
  assumes "pow2 e \<le> \<bar>x\<bar>" and "\<bar>x\<bar> < pow2 (e + 1)"
  shows "expo x = e"
proof -
  have "x \<noteq> 0"
    using assms(1) pow2_pos [of e] by auto
  from expo_bounds [OF this] have b: "pow2 (expo x) \<le> \<bar>x\<bar>" "\<bar>x\<bar> < pow2 (expo x + 1)"
    by simp_all
  have "pow2 e < pow2 (expo x + 1)"
    using assms(1) b(2) by linarith
  then have 1: "e < expo x + 1"
    by (simp only: pow2_less_iff)
  have "pow2 (expo x) < pow2 (e + 1)"
    using assms(2) b(1) by linarith
  then have 2: "expo x < e + 1"
    by (simp only: pow2_less_iff)
  from 1 2 show ?thesis by simp
qed


lemma rd_0: "rd 0 = 0"
  by (simp add: rd_def)

lemma rd_ulp:
  assumes "x \<noteq> 0"
  shows "\<bar>rd x - x\<bar> \<le> pow2 (max (expo x) (- 1022) - 52) / 2"
proof -
  define u where "u = pow2 (max (expo x) (- 1022) - 52)"
  have u: "0 < u"
    by (simp add: u_def pow2_pos)
  have "rd x - x = (of_int (roundEven (x / u)) - x / u) * u"
    using assms u by (simp add: rd_def u_def Let_def field_simps)
  then have "\<bar>rd x - x\<bar> = \<bar>of_int (roundEven (x / u)) - x / u\<bar> * u"
    using u by (simp add: abs_mult)
  also have "\<dots> \<le> (1 / 2) * u"
    using roundEven_err [of "x / u"] u by (intro mult_right_mono) simp_all
  finally show ?thesis
    by (simp add: u_def)
qed

lemma rd_err: "\<bar>rd x - x\<bar> \<le> max (\<bar>x\<bar> / 2 ^ 53) (1 / 2 ^ 1075)"
proof (cases "x = 0")
  case True
  then show ?thesis by (simp add: rd_0)
next
  case False
  note ulp = rd_ulp [OF False]
  show ?thesis
  proof (cases "- 1022 \<le> expo x")
    case True
    then have "pow2 (max (expo x) (- 1022) - 52) = pow2 (expo x) * pow2 (- 52)"
      using pow2_add [of "expo x" "- 52"] by (simp add: max_def)
    also have "\<dots> \<le> \<bar>x\<bar> * pow2 (- 52)"
      using expo_bounds [OF False] pow2_pos [of "- 52"] by (intro mult_right_mono) simp_all
    finally have "pow2 (max (expo x) (- 1022) - 52) / 2 \<le> \<bar>x\<bar> / 2 ^ 53"
      by (simp add: pow2_def)
    with ulp show ?thesis by linarith
  next
    case False
    then have "pow2 (max (expo x) (- 1022) - 52) / 2 = 1 / 2 ^ 1075"
      by (simp add: max_def pow2_def)
    with ulp show ?thesis by linarith
  qed
qed


lemma rd_nonneg: "0 \<le> x \<Longrightarrow> 0 \<le> rd x"
  using roundEven_ge [of 0 "x / pow2 (max (expo x) (- 1022) - 52)"] pow2_pos [of "max (expo x) (- 1022) - 52"]
  by (simp add: rd_def Let_def)

lemma rd_nonpos: "x \<le> 0 \<Longrightarrow> rd x \<le> 0"
  using roundEven_le [of "x / pow2 (max (expo x) (- 1022) - 52)" 0] pow2_pos [of "max (expo x) (- 1022) - 52"]
  by (simp add: rd_def Let_def divide_nonpos_pos mult_nonpos_nonneg)





lemma roundEven_minus: "roundEven (- y) = - roundEven y"
proof (cases "y = of_int \<lfloor>y\<rfloor>")
  case True
  then have "roundEven y = \<lfloor>y\<rfloor>"
    using roundEven_of_int [of "\<lfloor>y\<rfloor>"] by simp
  moreover have "roundEven (- y) = - \<lfloor>y\<rfloor>"
    using True roundEven_of_int [of "- \<lfloor>y\<rfloor>"] by simp
  ultimately show ?thesis by simp
next
  case False
  define f where "f = \<lfloor>y\<rfloor>"
  define r where "r = y - of_int f"
  have lt: "of_int f < y"
    using False of_int_floor_le [of y] unfolding f_def by linarith
  have ub: "y < of_int f + 1"
    unfolding f_def by linarith
  have cast: "real_of_int (- f - 1) = - real_of_int f - 1"
    by simp
  have fl: "\<lfloor>- y\<rfloor> = - f - 1"
  proof (rule floor_unique)
    show "of_int (- f - 1) \<le> - y"
      using ub unfolding cast by linarith
    show "- y < of_int (- f - 1) + 1"
      using lt unfolding cast by linarith
  qed
  have r': "- y - of_int (- f - 1) = 1 - r"
    unfolding cast r_def by simp
  have A: "roundEven y = (if r < 1 / 2 then f else if 1 / 2 < r then f + 1 else if even f then f else f + 1)"
    by (simp add: roundEven_def Let_def f_def r_def)
  have B: "roundEven (- y) =
      (if 1 - r < 1 / 2 then - f - 1 else if 1 / 2 < 1 - r then - f - 1 + 1
       else if even (- f - 1) then - f - 1 else - f - 1 + 1)"
    unfolding roundEven_def Let_def fl r' by (rule refl)
  consider "r < 1 / 2" | "1 / 2 < r" | "r = 1 / 2"
    by linarith
  then show ?thesis
  proof cases
    case 1
    then show ?thesis by (simp add: A B)
  next
    case 2
    then show ?thesis by (simp add: A B)
  next
    case 3
    then show ?thesis by (simp add: A B)
  qed
qed

lemma expo_minus: "expo (- x) = expo x"
  by (simp add: expo_def)

lemma rd_minus: "rd (- x) = - rd x"
  by (simp add: rd_def Let_def expo_minus roundEven_minus)

lemma rd_scaled:
  assumes "x = of_int m * pow2 (max (expo x) (- 1022) - 52)"
  shows "rd x = x"
proof (cases "x = 0")
  case True
  then show ?thesis by (simp add: rd_0)
next
  case False
  define u where "u = pow2 (max (expo x) (- 1022) - 52)"
  have u: "0 < u"
    by (simp add: u_def pow2_pos)
  note xm = assms [folded u_def]
  have "x / u = of_int m * u / u"
    by (subst xm) simp
  then have "x / u = of_int m"
    using u by simp
  then have "rd x = of_int (roundEven (of_int m)) * u"
    using False by (simp add: rd_def Let_def u_def)
  then show ?thesis
    by (simp add: roundEven_of_int xm [symmetric])
qed

lemma rd_idem: "rd (rd x) = rd x"
proof (cases "rd x = 0")
  case True
  then show ?thesis by (simp add: rd_0)
next
  case ynz: False
  then have xnz: "x \<noteq> 0"
    by (auto simp add: rd_0)
  define E where "E = max (expo x) (- 1022)"
  define u where "u = pow2 (E - 52)"
  define m where "m = roundEven (x / u)"
  define y where "y = rd x"
  have u: "0 < u"
    by (simp add: u_def pow2_pos)
  have y: "y = of_int m * u"
    using xnz by (simp add: y_def rd_def Let_def m_def u_def E_def)
  have E: "- 1022 \<le> E" "expo x \<le> E"
    by (simp_all add: E_def)
  have p53: "pow2 53 = 2 ^ 53" and p52: "pow2 52 = 2 ^ 52" and p1: "pow2 1 = 2"
    by (simp_all add: pow2_def)
  have "pow2 (E + 1) = pow2 53 * pow2 (E - 52)"
    using pow2_add [of 53 "E - 52"] by (simp add: add.commute)
  then have top: "pow2 (E + 1) = 2 ^ 53 * u"
    by (simp only: p53 u_def)
  have "pow2 E = pow2 52 * pow2 (E - 52)"
    using pow2_add [of 52 "E - 52"] by (simp add: add.commute)
  then have bot: "pow2 E = 2 ^ 52 * u"
    by (simp only: p52 u_def)
  have "\<bar>x\<bar> < pow2 (expo x + 1)"
    using expo_bounds [OF xnz] by simp
  also have "\<dots> \<le> pow2 (E + 1)"
    using E(2) by (intro pow2_mono) simp
  finally have "\<bar>x\<bar> < 2 ^ 53 * u"
    by (simp add: top)
  then have xs: "\<bar>x / u\<bar> < 2 ^ 53"
    using u by (simp add: field_simps)
  note xs' = xs [unfolded abs_less_iff]
  have xb: "x / u \<le> of_int (2 ^ 53)" "of_int (- (2 ^ 53)) \<le> x / u"
    using xs' by simp_all
  have mb: "m \<le> 2 ^ 53" "- (2 ^ 53) \<le> m"
    unfolding m_def using roundEven_le [OF xb(1)] roundEven_ge [OF xb(2)] by simp_all
  have ynz': "y \<noteq> 0"
    using ynz by (simp add: y_def)
  then have mnz: "m \<noteq> 0"
    using y by auto
  have yabs: "\<bar>y\<bar> = of_int \<bar>m\<bar> * u"
    using u by (simp add: y abs_mult)
  show ?thesis
  proof (cases "\<bar>m\<bar> = 2 ^ 53")
    case True
    then have "\<bar>y\<bar> = pow2 (E + 1)"
      by (simp add: yabs top)
    then have "expo y = E + 1"
      using pow2_less_iff [of "E + 1" "E + 1 + 1"] by (intro expo_unique) simp_all
    then have q: "max (expo y) (- 1022) - 52 = E - 52 + 1"
      using E(1) by simp
    have "pow2 (E - 52 + 1) = pow2 1 * pow2 (E - 52)"
      using pow2_add [of 1 "E - 52"] by (simp add: add.commute)
    then have "pow2 (E - 52 + 1) = 2 * u"
      by (simp only: p1 u_def)
    then have pq: "pow2 (max (expo y) (- 1022) - 52) = 2 * u"
      by (simp only: q)
    have "even \<bar>m\<bar>"
      unfolding True by simp
    then have "even m"
      by simp
    then obtain h where h: "m = 2 * h"
      by (elim evenE)
    have yh: "y = of_int h * (2 * u)"
      using h by (simp add: y)
    have "y = of_int h * pow2 (max (expo y) (- 1022) - 52)"
      by (subst pq) (rule yh)
    then have "rd y = y"
      by (rule rd_scaled)
    then show ?thesis
      by (simp add: y_def)
  next
    case False
    then have "\<bar>m\<bar> < 2 ^ 53"
      using mb by (simp add: abs_if split: if_splits)
    then have "real_of_int \<bar>m\<bar> < real_of_int (2 ^ 53)"
      by (simp only: of_int_less_iff)
    then have "\<bar>y\<bar> < pow2 (E + 1)"
      using u by (simp add: yabs top)
    moreover have "pow2 (expo y) \<le> \<bar>y\<bar>"
      using expo_bounds [OF ynz'] by simp
    ultimately have "pow2 (expo y) < pow2 (E + 1)"
      by linarith
    then have up: "expo y \<le> E"
      by (simp add: pow2_less_iff)
    have lo: "E \<le> max (expo y) (- 1022)"
    proof (cases "E = - 1022")
      case True
      then show ?thesis by simp
    next
      case False
      then have Ee: "E = expo x"
        using E(1) by (simp add: E_def max_def split: if_splits)
      have "2 ^ 52 * u \<le> \<bar>x\<bar>"
        using expo_bounds [OF xnz] by (simp add: Ee [symmetric] bot)
      then have xl: "2 ^ 52 \<le> \<bar>x / u\<bar>"
        using u by (simp add: field_simps)
      have "2 ^ 52 \<le> \<bar>m\<bar>"
      proof (cases "0 \<le> x")
        case True
        then have "of_int (2 ^ 52) \<le> x / u"
          using xl u by simp
        then have "2 ^ 52 \<le> m"
          unfolding m_def by (rule roundEven_ge)
        then show ?thesis by simp
      next
        case False
        then have "x / u \<le> of_int (- (2 ^ 52))"
          using xl u by (simp add: abs_if divide_less_0_iff split: if_splits)
        then have "m \<le> - (2 ^ 52)"
          unfolding m_def by (rule roundEven_le)
        then show ?thesis by simp
      qed
      then have "real_of_int (2 ^ 52) \<le> real_of_int \<bar>m\<bar>"
        by (simp only: of_int_le_iff)
      then have "pow2 E \<le> \<bar>y\<bar>"
        using u by (simp add: yabs bot)
      moreover have "\<bar>y\<bar> < pow2 (expo y + 1)"
        using expo_bounds [OF ynz'] by simp
      ultimately have "pow2 E < pow2 (expo y + 1)"
        by linarith
      then have "E \<le> expo y"
        by (simp add: pow2_less_iff)
      then show ?thesis by simp
    qed
    from up lo E(1) have "max (expo y) (- 1022) = E"
      by simp
    then have pq: "pow2 (max (expo y) (- 1022) - 52) = u"
      by (simp only: u_def)
    have "y = of_int m * pow2 (max (expo y) (- 1022) - 52)"
      by (subst pq) (rule y)
    then have "rd y = y"
      by (rule rd_scaled)
    then show ?thesis
      by (simp add: y_def)
  qed
qed

section \<open>FaultManager\<close>

lemma latch_priority_mono: "faultPriority (latched fm) \<le> faultPriority (latched (latch f fm))"
  by (simp add: latch_def)

lemma latchTrace_sorted:
  "sorted (map (\<lambda>m. faultPriority (latched m)) (fm # latchTrace fm fs))"
proof (induction fs arbitrary: fm)
  case Nil
  show ?case by simp
next
  case (Cons f fs)
  have step: "faultPriority (latched fm) \<le> faultPriority (latched (latch f fm))"
    by (rule latch_priority_mono)
  have rest: "sorted (map (\<lambda>m. faultPriority (latched m)) (latch f fm # latchTrace (latch f fm) fs))"
    by (rule Cons.IH)
  have "\<forall>x \<in> set (map (\<lambda>m. faultPriority (latched m)) (latch f fm # latchTrace (latch f fm) fs)).
          faultPriority (latched fm) \<le> x"
    using step rest by (auto simp del: latchTrace.simps)
  with rest show ?case by simp
qed

lemma latchAll_priority_mono: "faultPriority (latched fm) \<le> faultPriority (latched (latchAll fm fs))"
proof (induction fs arbitrary: fm)
  case Nil
  show ?case by simp
next
  case (Cons f fs)
  have "faultPriority (latched fm) \<le> faultPriority (latched (latch f fm))"
    by (rule latch_priority_mono)
  also have "\<dots> \<le> faultPriority (latched (latchAll (latch f fm) fs))"
    by (rule Cons.IH)
  finally show ?case by simp
qed

lemma faultPriority_pos: "f \<noteq> NoneFault \<Longrightarrow> 0 < faultPriority f"
  by (cases f) simp_all

lemma hasFault_priority: "hasFault fm \<longleftrightarrow> 0 < faultPriority (latched fm)"
  by (cases "latched fm") (simp_all add: hasFault_def)

text \<open>
  Claim C3. Over any sequence of \<^verbatim>\<open>latch\<close> calls from any latched value the priority of
  the latched fault never decreases: the priorities of the managers along the sequence
  are sorted, and the last one is no lower than the first. \<^verbatim>\<open>latch(code)\<close> stores the
  code exactly when its priority is higher than the latched one, and leaves the manager
  as it is otherwise; so \<^verbatim>\<open>latch(None)\<close> and a \<^verbatim>\<open>latch\<close> of the code already latched change
  nothing.
\<close>
theorem latch_priority_monotone:
  "sorted (map (\<lambda>m. faultPriority (latched m)) (fm # latchTrace fm fs)) \<and>
   faultPriority (latched fm) \<le> faultPriority (latched (latchAll fm fs)) \<and>
   (faultPriority f > faultPriority (latched fm) \<longrightarrow> latched (latch f fm) = f) \<and>
   (\<not> faultPriority f > faultPriority (latched fm) \<longrightarrow> latch f fm = fm) \<and>
   latch NoneFault fm = fm \<and>
   latch (latched fm) fm = fm"
proof -
  have "latch NoneFault fm = fm"
    using faultPriority_pos [of "latched fm"] by (cases "latched fm") (simp_all add: latch_def)
  then show ?thesis
    using latchTrace_sorted [of fm fs] latchAll_priority_mono [of fm fs]
    by (simp add: latch_def)
qed

theorem latch_priority_monotone_witness:
  "faultPriority Overload > faultPriority (latched \<lparr>latched = LimitViolation\<rparr>) \<and>
   latched (latch Overload \<lparr>latched = LimitViolation\<rparr>) = Overload \<and>
   \<not> faultPriority LimitViolation > faultPriority (latched \<lparr>latched = Overload\<rparr>) \<and>
   latch LimitViolation \<lparr>latched = Overload\<rparr> = \<lparr>latched = Overload\<rparr> \<and>
   map (\<lambda>m. faultPriority (latched m))
     (\<lparr>latched = NoneFault\<rparr> # latchTrace \<lparr>latched = NoneFault\<rparr> [Overload, LimitViolation, EmergencyStop, NoneFault])
     = [0, 20, 20, 30, 30]"
  using latch_priority_monotone [of "\<lparr>latched = LimitViolation\<rparr>" "[]" Overload]
    latch_priority_monotone [of "\<lparr>latched = Overload\<rparr>" "[]" LimitViolation]
    latch_priority_monotone [of "\<lparr>latched = NoneFault\<rparr>" "[Overload, LimitViolation, EmergencyStop, NoneFault]" NoneFault]
  by (simp add: latch_def)

section \<open>LiftController::update\<close>

lemmas model_defs =
  update_def latchFaults_def latchIf_def allowReset_def resetGate_def transition_def
  driveOutputs_def out0_def stopped_def hasFault_def latch_def clear_def cmdUpOnly_def in0_def
  ctrl0_def plant0_def maxLoadKg_def liftSpeed_def lowerSpeed_def safeStopSpeedEps_def Let_def

lemma update_out:
  "fst (update dt i c plant) = fst (driveOutputs i (transition i (allowReset i plant (latchFaults i c))) plant)"
  by (simp add: update_def Let_def split_beta)

lemma update_plant:
  "snd (snd (update dt i c plant)) = snd (driveOutputs i (transition i (allowReset i plant (latchFaults i c))) plant)"
  by (simp add: update_def Let_def split_beta)

lemma update_ctrl:
  "fst (snd (update dt i c plant)) =
     (transition i (allowReset i plant (latchFaults i c)))\<lparr>lastTopLimit := topLimit i, lastBottomLimit := bottomLimit i\<rparr>"
  by (simp add: update_def Let_def split_beta)

lemma latchIf_state: "state (latchIf b f c) = state c"
  by (simp add: latchIf_def)

lemma latchIf_faults: "faults (latchIf b f c) = (if b then latch f (faults c) else faults c)"
  by (simp add: latchIf_def)

lemma latchFaults_state: "state (latchFaults i c) = state c"
  by (simp add: latchFaults_def Let_def latchIf_state)

lemma latchIf_priority_mono:
  "faultPriority (latched (faults c)) \<le> faultPriority (latched (faults (latchIf b f c)))"
  by (simp add: latchIf_faults latch_priority_mono)

lemma latchFaults_priority_mono:
  "faultPriority (latched (faults c)) \<le> faultPriority (latched (faults (latchFaults i c)))"
proof -
  have trans2: "\<And>b f d. faultPriority (latched (faults c)) \<le> faultPriority (latched (faults d)) \<Longrightarrow>
      faultPriority (latched (faults c)) \<le> faultPriority (latched (faults (latchIf b f d)))"
    using latchIf_priority_mono order_trans by blast
  show ?thesis
    unfolding latchFaults_def Let_def
    by (simp add: trans2)
qed

lemma allowReset_state: "state (allowReset i plant c) = state c"
  by (simp add: allowReset_def)

lemma allowReset_faults:
  "faults (allowReset i plant c) = (if resetGate i plant then clear (faults c) else faults c)"
  by (simp add: allowReset_def)

lemma transition_faults: "faults (transition i c) = faults c"
  by (simp add: transition_def Let_def)

lemma transition_state:
  "state (transition i c) =
     (if hasFault (faults c) then Faulted
      else if cmdUp i \<and> \<not> cmdDown i \<and> \<not> topLimit i then Lifting
      else if cmdDown i \<and> \<not> cmdUp i \<and> \<not> bottomLimit i then Lowering
      else Holding)"
  by (simp add: transition_def Let_def)

lemma update_faults:
  "faults (fst (snd (update dt i c plant))) =
     (if resetGate i plant then clear (faults (latchFaults i c)) else faults (latchFaults i c))"
  by (simp add: update_ctrl transition_faults allowReset_faults)

lemma update_state:
  "state (fst (snd (update dt i c plant))) = state (transition i (allowReset i plant (latchFaults i c)))"
  by (simp add: update_ctrl)

lemma driveOutputs_exclusive:
  "(motorEnable (fst (driveOutputs i c plant)) \<longleftrightarrow> motorDir (fst (driveOutputs i c plant)) \<noteq> 0) \<and>
   (motorDir (fst (driveOutputs i c plant)) \<noteq> 0 \<longleftrightarrow> \<not> brakeEngaged (fst (driveOutputs i c plant)))"
  by (cases "state c") (simp_all add: driveOutputs_def out0_def stopped_def)

lemma latchFaults_hasFault: "hasFault (faults c) \<Longrightarrow> hasFault (faults (latchFaults i c))"
  using latchFaults_priority_mono [of c i] by (simp add: hasFault_priority)

text \<open>
  Claim C1. The outputs returned by \<^verbatim>\<open>update\<close>, for any inputs, controller and plant,
  satisfy the exclusivity invariant: the motor is enabled exactly when a direction is
  commanded, and a direction is commanded exactly when the brake is released. So an
  enabled motor has a direction and no brake, and an engaged brake has no direction and
  no motor.
\<close>
theorem update_outputs_exclusive:
  "(motorEnable (fst (update dt i c plant)) \<longleftrightarrow> motorDir (fst (update dt i c plant)) \<noteq> 0) \<and>
   (motorDir (fst (update dt i c plant)) \<noteq> 0 \<longleftrightarrow> \<not> brakeEngaged (fst (update dt i c plant))) \<and>
   (motorEnable (fst (update dt i c plant)) \<longrightarrow>
      motorDir (fst (update dt i c plant)) \<noteq> 0 \<and> \<not> brakeEngaged (fst (update dt i c plant))) \<and>
   (brakeEngaged (fst (update dt i c plant)) \<longrightarrow>
      motorDir (fst (update dt i c plant)) = 0 \<and> \<not> motorEnable (fst (update dt i c plant)))"
  using driveOutputs_exclusive [of i "transition i (allowReset i plant (latchFaults i c))" plant]
  by (simp add: update_out)

theorem update_outputs_exclusive_witness:
  "motorEnable (fst (update 0.02 (cmdUpOnly\<lparr>bottomLimit := False\<rparr>) ctrl0 plant0)) \<and>
   motorDir (fst (update 0.02 (cmdUpOnly\<lparr>bottomLimit := False\<rparr>) ctrl0 plant0)) = 1 \<and>
   \<not> brakeEngaged (fst (update 0.02 (cmdUpOnly\<lparr>bottomLimit := False\<rparr>) ctrl0 plant0)) \<and>
   brakeEngaged (fst (update 0.02 in0 ctrl0 plant0)) \<and>
   motorDir (fst (update 0.02 in0 ctrl0 plant0)) = 0 \<and>
   \<not> motorEnable (fst (update 0.02 in0 ctrl0 plant0))"
  using update_outputs_exclusive [of "0.02" "cmdUpOnly\<lparr>bottomLimit := False\<rparr>" ctrl0 plant0]
    update_outputs_exclusive [of "0.02" in0 ctrl0 plant0]
  by (simp add: model_defs)

text \<open>
  Claim C2. When a fault is latched before a call of \<^verbatim>\<open>update\<close>, no fault is latched after
  the call only if in that call the reset was requested, the emergency stop was released
  and the plant velocity was below \<^verbatim>\<open>safeStopSpeedEps\<close> in magnitude (and then the fault is
  indeed cleared). If one of the three fails, the priority of the latched fault after the
  call is no lower than before.
\<close>
theorem reset_gated:
  assumes "latched (faults c) \<noteq> NoneFault"
  shows "(latched (faults (fst (snd (update dt i c plant)))) = NoneFault \<longleftrightarrow>
            resetFault i \<and> \<not> estop i \<and> \<bar>velocity plant\<bar> < safeStopSpeedEps) \<and>
         (\<not> (resetFault i \<and> \<not> estop i \<and> \<bar>velocity plant\<bar> < safeStopSpeedEps) \<longrightarrow>
            faultPriority (latched (faults c)) \<le> faultPriority (latched (faults (fst (snd (update dt i c plant))))))"
proof -
  have pos: "0 < faultPriority (latched (faults c))"
    using assms by (rule faultPriority_pos)
  have mono: "faultPriority (latched (faults c)) \<le> faultPriority (latched (faults (latchFaults i c)))"
    by (rule latchFaults_priority_mono)
  from pos mono have "latched (faults (latchFaults i c)) \<noteq> NoneFault"
    by auto
  with mono show ?thesis
    by (simp add: update_faults resetGate_def clear_def)
qed

theorem reset_gated_witness:
  "latched (faults (ctrl0\<lparr>faults := \<lparr>latched = Overload\<rparr>\<rparr>)) \<noteq> NoneFault \<and>
   latched (faults (fst (snd (update 0.02 (in0\<lparr>resetFault := True\<rparr>)
      (ctrl0\<lparr>faults := \<lparr>latched = Overload\<rparr>\<rparr>) plant0)))) = NoneFault \<and>
   \<not> (resetFault (in0\<lparr>resetFault := True, estop := True\<rparr>) \<and>
       \<not> estop (in0\<lparr>resetFault := True, estop := True\<rparr>) \<and> \<bar>velocity plant0\<bar> < safeStopSpeedEps) \<and>
   faultPriority (latched (faults (ctrl0\<lparr>faults := \<lparr>latched = Overload\<rparr>\<rparr>)))
     \<le> faultPriority (latched (faults (fst (snd (update 0.02 (in0\<lparr>resetFault := True, estop := True\<rparr>)
          (ctrl0\<lparr>faults := \<lparr>latched = Overload\<rparr>\<rparr>) plant0)))))"
  using reset_gated [of "ctrl0\<lparr>faults := \<lparr>latched = Overload\<rparr>\<rparr>" "0.02" "in0\<lparr>resetFault := True\<rparr>" plant0]
    reset_gated [of "ctrl0\<lparr>faults := \<lparr>latched = Overload\<rparr>\<rparr>" "0.02" "in0\<lparr>resetFault := True, estop := True\<rparr>" plant0]
  by (simp add: in0_def ctrl0_def plant0_def safeStopSpeedEps_def)

text \<open>
  The fault latched after Step 1, in closed form: the emergency stop first, then the
  overload, then the limit conditions, each taking effect only over a lower priority.
\<close>

lemma latchFaults_latched_cases:
  "latched (faults (latchFaults i c)) =
     (let f1 = (if estop i then latched (latch EmergencyStop (faults c)) else latched (faults c));
          f2 = (if loadKg i > maxLoadKg \<and> faultPriority f1 < 20 then Overload else f1);
          lim = (topLimit i \<and> bottomLimit i) \<or> (state c = Lifting \<and> topLimit i) \<or>
                (state c = Lowering \<and> bottomLimit i) \<or> (cmdUp i \<and> topLimit i) \<or>
                (cmdDown i \<and> bottomLimit i)
      in if lim \<and> faultPriority f2 < 10 then LimitViolation else f2)"
  by (cases "latched (faults c)")
     (auto simp add: latchFaults_def latchIf_def latch_def Let_def)

text \<open>
  Claim C5. In a call of \<^verbatim>\<open>update\<close> with \<^verbatim>\<open>cmdUp\<close> and \<^verbatim>\<open>topLimit\<close> set and \<^verbatim>\<open>bottomLimit\<close>
  clear, Step 1 of that scan leaves \<^verbatim>\<open>LimitViolation\<close> latched, or a fault of higher
  priority; it is \<^verbatim>\<open>LimitViolation\<close> when no fault was latched before and neither the
  emergency stop nor the overload fires. Without a gated reset in that scan the fault
  survives the call and the state is \<^verbatim>\<open>Faulted\<close> at the end of the same scan, and it is
  \<^verbatim>\<open>Faulted\<close> again after a following scan without a gated reset, whatever its inputs.
\<close>
theorem limit_interlock:
  assumes "cmdUp i" and "topLimit i" and "\<not> bottomLimit i"
  shows "(latched (faults (latchFaults i c)) = LimitViolation \<or>
            faultPriority LimitViolation < faultPriority (latched (faults (latchFaults i c)))) \<and>
         (latched (faults c) = NoneFault \<and> \<not> estop i \<and> \<not> loadKg i > maxLoadKg \<longrightarrow>
            latched (faults (latchFaults i c)) = LimitViolation) \<and>
         (\<not> resetGate i plant \<longrightarrow>
            faults (fst (snd (update dt i c plant))) = faults (latchFaults i c) \<and>
            state (fst (snd (update dt i c plant))) = Faulted \<and>
            (\<not> resetGate i2 plant2 \<longrightarrow>
               state (fst (snd (update dt2 i2 (fst (snd (update dt i c plant))) plant2))) = Faulted))"
proof -
  have lv: "faultPriority LimitViolation \<le> faultPriority (latched (faults (latchFaults i c)))"
    using assms by (cases "latched (faults c)") (auto simp add: latchFaults_latched_cases latch_def Let_def)
  have a: "latched (faults (latchFaults i c)) = LimitViolation \<or>
            faultPriority LimitViolation < faultPriority (latched (faults (latchFaults i c)))"
    using lv by (cases "latched (faults (latchFaults i c))") simp_all
  have b: "latched (faults c) = NoneFault \<and> \<not> estop i \<and> \<not> loadKg i > maxLoadKg \<longrightarrow>
            latched (faults (latchFaults i c)) = LimitViolation"
    using assms by (simp add: latchFaults_latched_cases Let_def)
  have hf: "hasFault (faults (latchFaults i c))"
    using lv by (simp add: hasFault_priority)
  have c: "\<not> resetGate i plant \<longrightarrow>
            faults (fst (snd (update dt i c plant))) = faults (latchFaults i c) \<and>
            state (fst (snd (update dt i c plant))) = Faulted \<and>
            (\<not> resetGate i2 plant2 \<longrightarrow>
               state (fst (snd (update dt2 i2 (fst (snd (update dt i c plant))) plant2))) = Faulted)"
  proof
    assume ng: "\<not> resetGate i plant"
    have f1: "faults (fst (snd (update dt i c plant))) = faults (latchFaults i c)"
      using ng by (simp add: update_faults)
    have s1: "state (fst (snd (update dt i c plant))) = Faulted"
      using ng hf by (simp add: update_state transition_state allowReset_faults)
    have s2: "\<not> resetGate i2 plant2 \<longrightarrow>
               state (fst (snd (update dt2 i2 (fst (snd (update dt i c plant))) plant2))) = Faulted"
    proof
      assume ng2: "\<not> resetGate i2 plant2"
      have "hasFault (faults (fst (snd (update dt i c plant))))"
        using f1 hf by simp
      then have "hasFault (faults (latchFaults i2 (fst (snd (update dt i c plant)))))"
        by (rule latchFaults_hasFault)
      then show "state (fst (snd (update dt2 i2 (fst (snd (update dt i c plant))) plant2))) = Faulted"
        using ng2 by (simp add: update_state transition_state allowReset_faults)
    qed
    from f1 s1 s2 show "faults (fst (snd (update dt i c plant))) = faults (latchFaults i c) \<and>
            state (fst (snd (update dt i c plant))) = Faulted \<and>
            (\<not> resetGate i2 plant2 \<longrightarrow>
               state (fst (snd (update dt2 i2 (fst (snd (update dt i c plant))) plant2))) = Faulted)"
      by simp
  qed
  from a b c show ?thesis by blast
qed


theorem limit_interlock_witness:
  "cmdUp (cmdUpOnly\<lparr>topLimit := True, bottomLimit := False\<rparr>) \<and>
   topLimit (cmdUpOnly\<lparr>topLimit := True, bottomLimit := False\<rparr>) \<and>
   \<not> bottomLimit (cmdUpOnly\<lparr>topLimit := True, bottomLimit := False\<rparr>) \<and>
   latched (faults ctrl0) = NoneFault \<and>
   \<not> resetGate (cmdUpOnly\<lparr>topLimit := True, bottomLimit := False\<rparr>) plant0 \<and>
   \<not> resetGate in0 plant0 \<and>
   latched (faults (latchFaults (cmdUpOnly\<lparr>topLimit := True, bottomLimit := False\<rparr>) ctrl0)) = LimitViolation \<and>
   state (fst (snd (update 0.02 (cmdUpOnly\<lparr>topLimit := True, bottomLimit := False\<rparr>) ctrl0 plant0))) = Faulted \<and>
   state (fst (snd (update 0.02 in0
     (fst (snd (update 0.02 (cmdUpOnly\<lparr>topLimit := True, bottomLimit := False\<rparr>) ctrl0 plant0))) plant0))) = Faulted"
  using limit_interlock [of "cmdUpOnly\<lparr>topLimit := True, bottomLimit := False\<rparr>" ctrl0 plant0 "0.02" in0 plant0 "0.02"]
  by (simp add: cmdUpOnly_def in0_def ctrl0_def plant0_def resetGate_def maxLoadKg_def)

text \<open>
  Claim C8 says that in every call of \<^verbatim>\<open>update\<close> a fault is latched as \<^verbatim>\<open>Overload\<close> exactly
  when \<^verbatim>\<open>loadKg > maxLoadKg\<close>. As stated for every call it fails in both directions. With
  \<^verbatim>\<open>loadKg = maxLoadKg + 1\<close> and the emergency stop asserted the latched fault is
  \<^verbatim>\<open>EmergencyStop\<close>; with \<^verbatim>\<open>loadKg = maxLoadKg + 1\<close> and an open reset gate no fault is latched
  after the call; and with a load of 0 on a controller that has \<^verbatim>\<open>Overload\<close> latched,
  \<^verbatim>\<open>Overload\<close> stays latched.
\<close>
theorem overload_interlock_counterexample:
  "loadKg (in0\<lparr>loadKg := maxLoadKg + 1, estop := True\<rparr>) > maxLoadKg \<and>
   latched (faults (fst (snd (update 0.02 (in0\<lparr>loadKg := maxLoadKg + 1, estop := True\<rparr>) ctrl0 plant0))))
     = EmergencyStop \<and>
   loadKg (in0\<lparr>loadKg := maxLoadKg + 1, resetFault := True\<rparr>) > maxLoadKg \<and>
   latched (faults (fst (snd (update 0.02 (in0\<lparr>loadKg := maxLoadKg + 1, resetFault := True\<rparr>) ctrl0 plant0))))
     = NoneFault \<and>
   \<not> loadKg in0 > maxLoadKg \<and>
   latched (faults (fst (snd (update 0.02 in0 (ctrl0\<lparr>faults := \<lparr>latched = Overload\<rparr>\<rparr>) plant0))))
     = Overload"
  by (simp add: update_faults latchFaults_latched_cases resetGate_def clear_def latch_def in0_def
      ctrl0_def plant0_def maxLoadKg_def safeStopSpeedEps_def Let_def)

text \<open>
  Claim C8 as amended. The overload interlock uses the strict comparison
  \<^verbatim>\<open>loadKg > maxLoadKg\<close>, and it latches through \<^verbatim>\<open>FaultManager::latch\<close>. When the comparison
  holds, Step 1 leaves a fault of at least the priority of \<^verbatim>\<open>Overload\<close> latched. The fault
  latched after Step 1 is \<^verbatim>\<open>Overload\<close> exactly when the load exceeds the maximum or
  \<^verbatim>\<open>Overload\<close> was latched already, and no emergency stop is asserted or latched; the fault
  latched after the call is \<^verbatim>\<open>Overload\<close> exactly when, in addition, the reset gate of Step 2
  is closed. So from a controller without a fault, with the emergency stop released and
  the reset gate closed, \<^verbatim>\<open>Overload\<close> is latched after the call exactly when
  \<^verbatim>\<open>loadKg > maxLoadKg\<close>. On the controller \<^verbatim>\<open>main\<close> starts from, with the inputs \<^verbatim>\<open>main\<close>
  starts from, \<^verbatim>\<open>loadKg = maxLoadKg + 1\<close> latches \<^verbatim>\<open>Overload\<close> and \<^verbatim>\<open>loadKg = maxLoadKg\<close> latches
  nothing.
\<close>
theorem overload_interlock:
  "(loadKg i > maxLoadKg \<longrightarrow>
      faultPriority Overload \<le> faultPriority (latched (faults (latchFaults i c)))) \<and>
   (latched (faults (latchFaults i c)) = Overload \<longleftrightarrow>
      (loadKg i > maxLoadKg \<or> latched (faults c) = Overload) \<and> \<not> estop i \<and>
      latched (faults c) \<noteq> EmergencyStop) \<and>
   (latched (faults (fst (snd (update dt i c plant)))) = Overload \<longleftrightarrow>
      (loadKg i > maxLoadKg \<or> latched (faults c) = Overload) \<and> \<not> estop i \<and>
      latched (faults c) \<noteq> EmergencyStop \<and> \<not> resetGate i plant) \<and>
   (latched (faults c) = NoneFault \<and> \<not> estop i \<longrightarrow>
      (latched (faults (latchFaults i c)) = Overload \<longleftrightarrow> loadKg i > maxLoadKg)) \<and>
   (latched (faults c) = NoneFault \<and> \<not> estop i \<and> \<not> resetGate i plant \<longrightarrow>
      (latched (faults (fst (snd (update dt i c plant)))) = Overload \<longleftrightarrow> loadKg i > maxLoadKg)) \<and>
   latched (faults (fst (snd (update dt (in0\<lparr>loadKg := maxLoadKg + 1\<rparr>) ctrl0 plant)))) = Overload \<and>
   latched (faults (fst (snd (update dt (in0\<lparr>loadKg := maxLoadKg\<rparr>) ctrl0 plant)))) = NoneFault"
proof -
  have a: "loadKg i > maxLoadKg \<longrightarrow>
      faultPriority Overload \<le> faultPriority (latched (faults (latchFaults i c)))"
    by (cases "latched (faults c)") (auto simp add: latchFaults_latched_cases latch_def Let_def)
  have b: "latched (faults (latchFaults i c)) = Overload \<longleftrightarrow>
      (loadKg i > maxLoadKg \<or> latched (faults c) = Overload) \<and> \<not> estop i \<and>
      latched (faults c) \<noteq> EmergencyStop"
    by (cases "latched (faults c)") (auto simp add: latchFaults_latched_cases latch_def Let_def)
  have u: "latched (faults (fst (snd (update dt i c plant)))) = Overload \<longleftrightarrow>
      (loadKg i > maxLoadKg \<or> latched (faults c) = Overload) \<and> \<not> estop i \<and>
      latched (faults c) \<noteq> EmergencyStop \<and> \<not> resetGate i plant"
    using b by (simp add: update_faults clear_def)
  have c: "latched (faults c) = NoneFault \<and> \<not> estop i \<longrightarrow>
      (latched (faults (latchFaults i c)) = Overload \<longleftrightarrow> loadKg i > maxLoadKg)"
    using b by auto
  have d: "latched (faults c) = NoneFault \<and> \<not> estop i \<and> \<not> resetGate i plant \<longrightarrow>
      (latched (faults (fst (snd (update dt i c plant)))) = Overload \<longleftrightarrow> loadKg i > maxLoadKg)"
    using c by (simp add: update_faults)
  have e: "latched (faults (fst (snd (update dt (in0\<lparr>loadKg := maxLoadKg + 1\<rparr>) ctrl0 plant)))) = Overload"
    by (simp add: update_faults latchFaults_latched_cases resetGate_def clear_def in0_def ctrl0_def Let_def)
  have f: "latched (faults (fst (snd (update dt (in0\<lparr>loadKg := maxLoadKg\<rparr>) ctrl0 plant)))) = NoneFault"
    by (simp add: update_faults latchFaults_latched_cases resetGate_def clear_def in0_def ctrl0_def Let_def)
  from a b u c d e f show ?thesis by blast
qed

theorem overload_interlock_witness:
  "loadKg (in0\<lparr>loadKg := 1201\<rparr>) > maxLoadKg \<and>
   latched (faults ctrl0) = NoneFault \<and> \<not> estop (in0\<lparr>loadKg := 1201\<rparr>) \<and>
   \<not> resetGate (in0\<lparr>loadKg := 1201\<rparr>) plant0 \<and>
   latched (faults (latchFaults (in0\<lparr>loadKg := 1201\<rparr>) ctrl0)) = Overload \<and>
   latched (faults (fst (snd (update 0.02 (in0\<lparr>loadKg := 1201\<rparr>) ctrl0 plant0)))) = Overload \<and>
   \<not> loadKg (in0\<lparr>loadKg := 1200\<rparr>) > maxLoadKg \<and>
   latched (faults (fst (snd (update 0.02 (in0\<lparr>loadKg := 1200\<rparr>) ctrl0 plant0)))) \<noteq> Overload"
  using overload_interlock [of "in0\<lparr>loadKg := 1201\<rparr>" ctrl0 "0.02" plant0]
    overload_interlock [of "in0\<lparr>loadKg := 1200\<rparr>" ctrl0 "0.02" plant0]
  by (simp add: in0_def ctrl0_def plant0_def resetGate_def maxLoadKg_def)

text \<open>
  Claim C10. The outputs of \<^verbatim>\<open>update\<close> are those Step 4 computes from the state Step 3
  leaves. When that state is \<^verbatim>\<open>Lifting\<close> the input \<^verbatim>\<open>topLimit\<close> is false, and when it is
  \<^verbatim>\<open>Lowering\<close> the input \<^verbatim>\<open>bottomLimit\<close> is false, so the limit branches of the two cases of
  the \<^verbatim>\<open>switch\<close> are never taken. Whenever the returned \<^verbatim>\<open>motorEnable\<close> is true, the direction
  is up with \<^verbatim>\<open>topLimit\<close> false, or down with \<^verbatim>\<open>bottomLimit\<close> false.
\<close>
theorem limit_branches_unreachable:
  "fst (update dt i c plant) = fst (driveOutputs i (transition i (allowReset i plant (latchFaults i c))) plant) \<and>
   (state (transition i (allowReset i plant (latchFaults i c))) = Lifting \<longrightarrow> \<not> topLimit i) \<and>
   (state (transition i (allowReset i plant (latchFaults i c))) = Lowering \<longrightarrow> \<not> bottomLimit i) \<and>
   (motorEnable (fst (update dt i c plant)) \<longrightarrow>
      (motorDir (fst (update dt i c plant)) = 1 \<and> \<not> topLimit i \<and>
         state (fst (snd (update dt i c plant))) = Lifting) \<or>
      (motorDir (fst (update dt i c plant)) = - 1 \<and> \<not> bottomLimit i \<and>
         state (fst (snd (update dt i c plant))) = Lowering))"
proof -
  let ?c3 = "transition i (allowReset i plant (latchFaults i c))"
  have a: "state ?c3 = Lifting \<longrightarrow> \<not> topLimit i"
    by (simp add: transition_state)
  have b: "state ?c3 = Lowering \<longrightarrow> \<not> bottomLimit i"
    by (simp add: transition_state)
  have d: "motorEnable (fst (driveOutputs i ?c3 plant)) \<longrightarrow>
      (motorDir (fst (driveOutputs i ?c3 plant)) = 1 \<and> \<not> topLimit i \<and> state ?c3 = Lifting) \<or>
      (motorDir (fst (driveOutputs i ?c3 plant)) = - 1 \<and> \<not> bottomLimit i \<and> state ?c3 = Lowering)"
    by (cases "state ?c3") (simp_all add: driveOutputs_def out0_def stopped_def)
  from a b d show ?thesis
    by (simp add: update_out update_state)
qed

theorem limit_branches_unreachable_witness:
  "state (transition (cmdUpOnly\<lparr>bottomLimit := False\<rparr>)
      (allowReset (cmdUpOnly\<lparr>bottomLimit := False\<rparr>) plant0
        (latchFaults (cmdUpOnly\<lparr>bottomLimit := False\<rparr>) ctrl0))) = Lifting \<and>
   \<not> topLimit (cmdUpOnly\<lparr>bottomLimit := False\<rparr>) \<and>
   motorEnable (fst (update 0.02 (cmdUpOnly\<lparr>bottomLimit := False\<rparr>) ctrl0 plant0)) \<and>
   motorDir (fst (update 0.02 (cmdUpOnly\<lparr>bottomLimit := False\<rparr>) ctrl0 plant0)) = 1 \<and>
   state (transition (in0\<lparr>cmdDown := True, bottomLimit := False\<rparr>)
      (allowReset (in0\<lparr>cmdDown := True, bottomLimit := False\<rparr>) plant0
        (latchFaults (in0\<lparr>cmdDown := True, bottomLimit := False\<rparr>) ctrl0))) = Lowering \<and>
   \<not> bottomLimit (in0\<lparr>cmdDown := True, bottomLimit := False\<rparr>) \<and>
   motorDir (fst (update 0.02 (in0\<lparr>cmdDown := True, bottomLimit := False\<rparr>) ctrl0 plant0)) = - 1"
  using limit_branches_unreachable [of "0.02" "cmdUpOnly\<lparr>bottomLimit := False\<rparr>" ctrl0 plant0]
    limit_branches_unreachable [of "0.02" "in0\<lparr>cmdDown := True, bottomLimit := False\<rparr>" ctrl0 plant0]
  by (simp add: model_defs)

lemma driveOutputs_out_state:
  "state c = state d \<Longrightarrow> fst (driveOutputs i c plant) = fst (driveOutputs i d plant')"
  by (cases "state d") (simp_all add: driveOutputs_def)

lemma driveOutputs_velocity: "velocity (snd (driveOutputs i c plant)) = velocity plant"
  by (cases "state c") (simp_all add: driveOutputs_def)

lemma update_velocity: "velocity (snd (snd (update dt i c plant))) = velocity plant"
  by (simp add: update_plant driveOutputs_velocity)

lemma resetGate_velocity: "velocity plant' = velocity plant \<Longrightarrow> resetGate i plant' = resetGate i plant"
  by (simp add: resetGate_def)

lemma latchFaults_noFault_iff:
  "\<not> hasFault (faults (latchFaults i c)) \<longleftrightarrow>
     \<not> hasFault (faults c) \<and> \<not> estop i \<and> \<not> loadKg i > maxLoadKg \<and>
     \<not> (topLimit i \<and> bottomLimit i) \<and> \<not> (state c = Lifting \<and> topLimit i) \<and>
     \<not> (state c = Lowering \<and> bottomLimit i) \<and> \<not> (cmdUp i \<and> topLimit i) \<and>
     \<not> (cmdDown i \<and> bottomLimit i)"
  by (cases "latched (faults c)")
     (auto simp add: latchFaults_latched_cases hasFault_def latch_def Let_def)

lemma update_hasFault_again:
  assumes "\<not> resetGate i plant"
  shows "hasFault (faults (latchFaults i (fst (snd (update dt i c plant))))) \<longleftrightarrow>
         hasFault (faults (latchFaults i c))"
proof (cases "hasFault (faults (latchFaults i c))")
  case True
  then have "hasFault (faults (fst (snd (update dt i c plant))))"
    using assms by (simp add: update_faults)
  then show ?thesis
    using True by (simp add: latchFaults_hasFault)
next
  case False
  then have nf: "\<not> hasFault (faults (fst (snd (update dt i c plant))))"
    using assms by (simp add: update_faults)
  have st: "state (fst (snd (update dt i c plant))) =
     (if cmdUp i \<and> \<not> cmdDown i \<and> \<not> topLimit i then Lifting
      else if cmdDown i \<and> \<not> cmdUp i \<and> \<not> bottomLimit i then Lowering
      else Holding)"
    using False assms by (simp add: update_state transition_state allowReset_faults)
  from False have inp: "\<not> estop i \<and> \<not> loadKg i > maxLoadKg \<and>
     \<not> (topLimit i \<and> bottomLimit i) \<and> \<not> (cmdUp i \<and> topLimit i) \<and> \<not> (cmdDown i \<and> bottomLimit i)"
    by (simp add: latchFaults_noFault_iff)
  have "\<not> hasFault (faults (latchFaults i (fst (snd (update dt i c plant)))))"
    using nf st inp by (simp add: latchFaults_noFault_iff)
  with False show ?thesis by simp
qed

text \<open>
  Claim C9. For every controller and every input snapshot, two calls of \<^verbatim>\<open>update\<close> in a
  row with the same inputs, on a plant that has target velocity and velocity zero before
  the first call, return equal outputs: the second call runs on the controller and the
  plant the first call left.
\<close>
theorem update_twice_same_outputs:
  assumes "targetVel plant = 0" and "velocity plant = 0"
  shows "fst (update dt i (fst (snd (update dt i c plant))) (snd (snd (update dt i c plant))))
         = fst (update dt i c plant)"
proof -
  let ?c' = "fst (snd (update dt i c plant))"
  let ?p' = "snd (snd (update dt i c plant))"
  have gate: "resetGate i ?p' = resetGate i plant"
    by (rule resetGate_velocity) (rule update_velocity)
  have hf: "hasFault (faults (allowReset i ?p' (latchFaults i ?c'))) =
            hasFault (faults (allowReset i plant (latchFaults i c)))"
  proof (cases "resetGate i plant")
    case True
    then show ?thesis
      using gate by (simp add: allowReset_faults clear_def hasFault_def)
  next
    case False
    then show ?thesis
      using gate update_hasFault_again [of i plant dt c] by (simp add: allowReset_faults)
  qed
  have "state (transition i (allowReset i ?p' (latchFaults i ?c'))) =
        state (transition i (allowReset i plant (latchFaults i c)))"
    using hf by (simp add: transition_state)
  then have "fst (driveOutputs i (transition i (allowReset i ?p' (latchFaults i ?c'))) ?p') =
        fst (driveOutputs i (transition i (allowReset i plant (latchFaults i c))) plant)"
    by (rule driveOutputs_out_state)
  then show ?thesis
    by (simp add: update_out)
qed

theorem update_twice_same_outputs_witness:
  "targetVel plant0 = 0 \<and> velocity plant0 = 0 \<and>
   fst (update 0.02 (cmdUpOnly\<lparr>topLimit := True, bottomLimit := False\<rparr>)
        (fst (snd (update 0.02 (cmdUpOnly\<lparr>topLimit := True, bottomLimit := False\<rparr>) ctrl0 plant0)))
        (snd (snd (update 0.02 (cmdUpOnly\<lparr>topLimit := True, bottomLimit := False\<rparr>) ctrl0 plant0))))
     = \<lparr>motorEnable = False, motorDir = 0, brakeEngaged = True, faultLamp = True\<rparr> \<and>
   fst (update 0.02 (cmdUpOnly\<lparr>topLimit := True, bottomLimit := False\<rparr>) ctrl0 plant0)
     = \<lparr>motorEnable = False, motorDir = 0, brakeEngaged = True, faultLamp = True\<rparr>"
  using update_twice_same_outputs [of plant0 "0.02" "cmdUpOnly\<lparr>topLimit := True, bottomLimit := False\<rparr>" ctrl0]
  by (simp add: model_defs)

lemma update_faulted:
  assumes "hasFault (faults (latchFaults i c))" and "\<not> resetGate i plant"
  shows "state (fst (snd (update dt i c plant))) = Faulted \<and>
         \<not> motorEnable (fst (update dt i c plant)) \<and> motorDir (fst (update dt i c plant)) = 0 \<and>
         brakeEngaged (fst (update dt i c plant)) \<and> faultLamp (fst (update dt i c plant)) \<and>
         targetVel (snd (snd (update dt i c plant))) = 0 \<and>
         hasFault (faults (fst (snd (update dt i c plant))))"
proof -
  have st: "state (transition i (allowReset i plant (latchFaults i c))) = Faulted"
    using assms by (simp add: transition_state allowReset_faults)
  then show ?thesis
    using assms by (simp add: update_out update_plant update_state update_faults driveOutputs_def
        out0_def stopped_def)
qed

lemma updateSeq_faulted:
  assumes "hasFault (faults c)" and "\<forall>(dt, i, plant) \<in> set xs. \<not> resetGate i plant"
  shows "\<forall>(out, c', plant') \<in> set (updateSeq c xs).
           state c' = Faulted \<and> \<not> motorEnable out \<and> motorDir out = 0 \<and> brakeEngaged out \<and>
           faultLamp out \<and> targetVel plant' = 0"
  using assms
proof (induction xs arbitrary: c)
  case Nil
  show ?case by simp
next
  case (Cons x xs)
  obtain dt i plant where x: "x = (dt, i, plant)"
    by (cases x) auto
  have ng: "\<not> resetGate i plant"
    using Cons.prems(2) x by simp
  have hf: "hasFault (faults (latchFaults i c))"
    using Cons.prems(1) by (rule latchFaults_hasFault)
  note one = update_faulted [OF hf ng, of dt]
  have rest: "\<forall>(out, c', plant') \<in> set (updateSeq (fst (snd (update dt i c plant))) xs).
           state c' = Faulted \<and> \<not> motorEnable out \<and> motorDir out = 0 \<and> brakeEngaged out \<and>
           faultLamp out \<and> targetVel plant' = 0"
    using one Cons.prems(2) by (intro Cons.IH) simp_all
  show ?case
    using one rest by (simp add: x Let_def split_beta)
qed

text \<open>
  Claim C4. Take a call of \<^verbatim>\<open>update\<close> with a fault latched at its start, or latched by its
  Step 1, and any scans after it, such that the reset condition of Step 2 holds in none
  of them. Then every one of these calls ends in state \<^verbatim>\<open>Faulted\<close>, returns the motor
  disabled, no direction, the brake engaged and the fault lamp lit, and leaves the target
  velocity of the plant at zero, whatever the commands, the other inputs and the plant
  of each scan are.
\<close>
theorem faulted_until_reset:
  assumes "hasFault (faults c) \<or> hasFault (faults (latchFaults i c))"
    and "\<forall>(dt', i', plant') \<in> set ((dt, i, plant) # rest). \<not> resetGate i' plant'"
  shows "\<forall>(out, c', plant') \<in> set (updateSeq c ((dt, i, plant) # rest)).
           state c' = Faulted \<and> \<not> motorEnable out \<and> motorDir out = 0 \<and> brakeEngaged out \<and>
           faultLamp out \<and> targetVel plant' = 0"
proof -
  have hf: "hasFault (faults (latchFaults i c))"
    using assms(1) latchFaults_hasFault by blast
  have ng: "\<not> resetGate i plant"
    using assms(2) by simp
  note one = update_faulted [OF hf ng, of dt]
  have "\<forall>(dt', i', plant') \<in> set rest. \<not> resetGate i' plant'"
    using assms(2) by simp
  with one have "\<forall>(out, c', plant') \<in> set (updateSeq (fst (snd (update dt i c plant))) rest).
           state c' = Faulted \<and> \<not> motorEnable out \<and> motorDir out = 0 \<and> brakeEngaged out \<and>
           faultLamp out \<and> targetVel plant' = 0"
    by (intro updateSeq_faulted) simp_all
  with one show ?thesis
    by (simp add: Let_def split_beta)
qed


theorem faulted_until_reset_witness:
  "(hasFault (faults ctrl0) \<or> hasFault (faults (latchFaults (in0\<lparr>estop := True\<rparr>) ctrl0))) \<and>
   \<not> resetGate (in0\<lparr>estop := True\<rparr>) plant0 \<and>
   \<not> resetGate (cmdUpOnly\<lparr>bottomLimit := False\<rparr>) plant0 \<and>
   \<not> resetGate (in0\<lparr>resetFault := True\<rparr>) (plant0\<lparr>velocity := 0.2\<rparr>) \<and>
   map (\<lambda>(out, c', plant'). (state c', motorEnable out, motorDir out, brakeEngaged out, faultLamp out,
          targetVel plant'))
     (updateSeq ctrl0 [(0.02, in0\<lparr>estop := True\<rparr>, plant0),
        (0.02, cmdUpOnly\<lparr>bottomLimit := False\<rparr>, plant0),
        (0.02, in0\<lparr>resetFault := True\<rparr>, plant0\<lparr>velocity := 0.2\<rparr>)])
     = [(Faulted, False, 0, True, True, 0), (Faulted, False, 0, True, True, 0),
        (Faulted, False, 0, True, True, 0)]"
  using faulted_until_reset [of ctrl0 "in0\<lparr>estop := True\<rparr>" "0.02" plant0
      "[(0.02, cmdUpOnly\<lparr>bottomLimit := False\<rparr>, plant0),
        (0.02, in0\<lparr>resetFault := True\<rparr>, plant0\<lparr>velocity := 0.2\<rparr>)]"]
  by (simp add: model_defs)

section \<open>LiftPlant::step\<close>

lemma clamp_max_min: "lo \<le> hi \<Longrightarrow> clamp v lo hi = max lo (min hi v)"
  by (simp add: clamp_def max_def min_def)

lemma clamp_bounds: "lo \<le> hi \<Longrightarrow> lo \<le> clamp v lo hi \<and> clamp v lo hi \<le> hi"
  by (simp add: clamp_def)

lemma endStops_combined:
  "endStops p =
     p\<lparr>velocity := (if (position p \<le> 0 \<and> velocity p < 0) \<or> (position p \<ge> 1 \<and> velocity p > 0)
                     then 0 else velocity p)\<rparr>"
  by (simp add: endStops_def Let_def)

lemma fmul_accel_nonneg: "0 < dt \<Longrightarrow> 0 \<le> fmul accel dt"
  unfolding fmul_def accel_def by (intro rd_nonneg mult_nonneg_nonneg) simp_all

lemma clampedDv_abs: "0 \<le> fmul accel dt \<Longrightarrow> \<bar>clampedDv dt p\<bar> \<le> fmul accel dt"
  by (auto simp add: clampedDv_def clamp_def Let_def)

lemma rd_fsub: "rd (fsub a b) = fsub a b" and rd_fmul: "rd (fmul a b) = fmul a b"
  and rd_fadd: "rd (fadd a b) = fadd a b"
  by (simp_all add: fsub_def fmul_def fadd_def rd_idem)

lemma rd_clampedDv: "rd (clampedDv dt p) = clampedDv dt p"
  by (simp add: clampedDv_def clamp_def Let_def rd_fsub rd_fmul rd_minus)

lemma velocity_accelerate: "velocity (accelerate dt p) = rd (rd (velocity p) + clampedDv dt p)"
  by (simp add: accelerate_def fadd_def rd_clampedDv)

lemma position_step:
  "position (step dt p) = clamp (fadd (position p) (fmul (velocity (accelerate dt p)) dt)) 0 1"
  by (simp add: step_def endStops_combined integrate_def accelerate_def Let_def)

lemma targetVel_step: "targetVel (step dt p) = targetVel p"
  by (simp add: step_def endStops_combined integrate_def accelerate_def Let_def)

lemma velocity_step:
  "velocity (step dt p) =
     (if (position (step dt p) \<le> 0 \<and> velocity (accelerate dt p) < 0) \<or>
         (position (step dt p) \<ge> 1 \<and> velocity (accelerate dt p) > 0)
      then 0 else velocity (accelerate dt p))"
  by (simp add: step_def endStops_combined integrate_def accelerate_def Let_def)

lemmas rd_eval = rd_def expo_def compute_bitlen pow2_def roundEven_def Let_def

lemma rd_002: "rd 0.02 = 5764607523034235 / 2 ^ 58"
  by (simp add: rd_eval)

lemma rd_m023: "rd (- 0.23) = - (8286623314361713 / 2 ^ 55)"
  by (simp add: rd_eval)

lemma rd_m04: "rd (- 0.4) = - (3602879701896397 / 2 ^ 53)"
  by (simp add: rd_eval)

lemma rd_3: "rd 3 = 3"
  by (simp add: rd_eval)

lemma clampedDv_eval:
  assumes "fmul accel dt = M" and "fsub (targetVel p) (velocity p) = D"
  shows "clampedDv dt p = clamp D (- M) M"
  by (simp add: clampedDv_def Let_def assms)

lemma step_spec_eval:
  assumes "fmul accel dt = M" and "fsub (targetVel p) (velocity p) = D"
    and "fadd (velocity p) (max (- M) (min M D)) = V"
    and "fadd (position p) (fmul V dt) = X"
  shows "step_spec dt p =
     \<lparr>position = max 0 (min 1 X),
      velocity = (if (max 0 (min 1 X) \<le> 0 \<and> V < 0) \<or> (max 0 (min 1 X) \<ge> 1 \<and> V > 0) then 0 else V),
      targetVel = targetVel p\<rparr>"
  by (simp add: step_spec_def Let_def assms)

text \<open>
  Claim C7 says that for \<^verbatim>\<open>dt > 0\<close> the velocity after the acceleration update differs
  from the velocity before by at most \<^verbatim>\<open>accel * dt\<close>. In double arithmetic the sum
  \<^verbatim>\<open>velocity += dv\<close> is rounded, and the bound fails: with the doubles nearest to
  \<^verbatim>\<open>velocity = -0.23\<close>, \<^verbatim>\<open>targetVel = -0.4\<close> and \<^verbatim>\<open>dt = 0.02\<close> the clamped change is minus the
  double of 0.06, the stored velocity is \<^verbatim>\<open>-0.29000000000000004\<close>, and it is further from the
  old velocity than \<^verbatim>\<open>accel * dt\<close>, taken as the exact product or as the double product.
\<close>
theorem accelerate_bound_counterexample:
  "rd (- 0.23) = - (8286623314361713 / 2 ^ 55) \<and>
   rd (- 0.4) = - (3602879701896397 / 2 ^ 53) \<and>
   rd 0.02 = 5764607523034235 / 2 ^ 58 \<and>
   velocity (accelerate (5764607523034235 / 2 ^ 58)
      \<lparr>position = 0.5, velocity = - (8286623314361713 / 2 ^ 55),
       targetVel = - (3602879701896397 / 2 ^ 53)\<rparr>) = - (326510972984361 / 2 ^ 50) \<and>
   \<not> \<bar>velocity (accelerate (5764607523034235 / 2 ^ 58)
        \<lparr>position = 0.5, velocity = - (8286623314361713 / 2 ^ 55),
         targetVel = - (3602879701896397 / 2 ^ 53)\<rparr>)
      - velocity \<lparr>position = 0.5, velocity = - (8286623314361713 / 2 ^ 55),
         targetVel = - (3602879701896397 / 2 ^ 53)\<rparr>\<bar>
      \<le> accel * (5764607523034235 / 2 ^ 58) \<and>
   \<not> \<bar>velocity (accelerate (5764607523034235 / 2 ^ 58)
        \<lparr>position = 0.5, velocity = - (8286623314361713 / 2 ^ 55),
         targetVel = - (3602879701896397 / 2 ^ 53)\<rparr>)
      - velocity \<lparr>position = 0.5, velocity = - (8286623314361713 / 2 ^ 55),
         targetVel = - (3602879701896397 / 2 ^ 53)\<rparr>\<bar>
      \<le> fmul accel (5764607523034235 / 2 ^ 58)"
proof -
  define d0 :: real where "d0 = 5764607523034235 / 2 ^ 58"
  define p0 where "p0 = \<lparr>position = 0.5, velocity = - (8286623314361713 / 2 ^ 55),
       targetVel = - (3602879701896397 / 2 ^ 53)\<rparr>"
  define M :: real where "M = 1080863910568919 / 2 ^ 54"
  define D :: real where "D = - (6124895493223875 / 2 ^ 55)"
  have m: "fmul accel d0 = M"
    by (simp add: fmul_def accel_def rd_3 d0_def M_def) (simp add: rd_eval)
  have d: "fsub (targetVel p0) (velocity p0) = D"
    by (simp add: fsub_def p0_def D_def) (simp add: rd_eval)
  have "clampedDv d0 p0 = clamp D (- M) M"
    using m d by (rule clampedDv_eval)
  moreover have "clamp D (- M) M = - M"
    by (simp add: clamp_def D_def M_def)
  ultimately have c: "clampedDv d0 p0 = - M"
    by simp
  have "velocity (accelerate d0 p0) = fadd (velocity p0) (- M)"
    by (simp add: accelerate_def c)
  also have "\<dots> = - (326510972984361 / 2 ^ 50)"
    by (simp add: fadd_def p0_def M_def) (simp add: rd_eval)
  finally have a: "velocity (accelerate d0 p0) = - (326510972984361 / 2 ^ 50)" .
  have b: "\<not> \<bar>velocity (accelerate d0 p0) - velocity p0\<bar> \<le> accel * d0"
    unfolding a by (simp add: p0_def d0_def accel_def)
  have b': "\<not> \<bar>velocity (accelerate d0 p0) - velocity p0\<bar> \<le> fmul accel d0"
    unfolding a m by (simp add: p0_def M_def)
  have r: "rd (- 0.23) = - (8286623314361713 / 2 ^ 55) \<and>
      rd (- 0.4) = - (3602879701896397 / 2 ^ 53) \<and>
      rd 0.02 = 5764607523034235 / 2 ^ 58"
    by (simp only: rd_002 rd_m023 rd_m04)
  from r a b b' have "rd (- 0.23) = - (8286623314361713 / 2 ^ 55) \<and>
      rd (- 0.4) = - (3602879701896397 / 2 ^ 53) \<and>
      rd 0.02 = 5764607523034235 / 2 ^ 58 \<and>
      velocity (accelerate d0 p0) = - (326510972984361 / 2 ^ 50) \<and>
      \<not> \<bar>velocity (accelerate d0 p0) - velocity p0\<bar> \<le> accel * d0 \<and>
      \<not> \<bar>velocity (accelerate d0 p0) - velocity p0\<bar> \<le> fmul accel d0"
    by blast
  then show ?thesis
    unfolding d0_def p0_def .
qed

text \<open>
  Claim C7 as amended. For \<^verbatim>\<open>dt > 0\<close> the plant step of the source computes what the
  specification words, each operation rounded to the nearest double: the velocity changes
  by the difference to the target clamped to \<^verbatim>\<open>accel * dt\<close> in magnitude, with
  \<^verbatim>\<open>accel = 3.0\<close>; the position advances by the new velocity times \<^verbatim>\<open>dt\<close> and is clamped to
  the unit interval; the velocity is zeroed when the position is at the bottom with a
  negative velocity or at the top with a positive one. So the position after a step lies
  between 0 and 1. The clamped change is at most the double product \<^verbatim>\<open>accel * dt\<close> in
  magnitude, and the velocity after the acceleration update is the rounded sum of the old
  velocity and the clamped change: it differs from that sum by at most half a unit in the
  last place, and from the old velocity by at most the double product \<^verbatim>\<open>accel * dt\<close> plus
  that rounding error.
\<close>
theorem step_refines_spec:
  assumes "0 < dt"
  shows "step dt p = step_spec dt p \<and>
         0 \<le> position (step dt p) \<and> position (step dt p) \<le> 1 \<and>
         \<bar>clampedDv dt p\<bar> \<le> fmul accel dt \<and>
         velocity (accelerate dt p) = rd (rd (velocity p) + clampedDv dt p) \<and>
         \<bar>velocity (accelerate dt p) - (rd (velocity p) + clampedDv dt p)\<bar>
           \<le> max (\<bar>rd (velocity p) + clampedDv dt p\<bar> / 2 ^ 53) (1 / 2 ^ 1075) \<and>
         \<bar>velocity (accelerate dt p) - rd (velocity p)\<bar>
           \<le> fmul accel dt + max (\<bar>rd (velocity p) + clampedDv dt p\<bar> / 2 ^ 53) (1 / 2 ^ 1075) \<and>
         accel = 3"
proof -
  have m: "0 \<le> fmul accel dt"
    using assms by (rule fmul_accel_nonneg)
  have dv: "clampedDv dt p = max (- fmul accel dt) (min (fmul accel dt) (fsub (targetVel p) (velocity p)))"
    using m by (simp add: clampedDv_def Let_def clamp_max_min)
  define D where "D = clampedDv dt p"
  define v1 where "v1 = fadd (velocity p) D"
  define x1 where "x1 = clamp (fadd (position p) (fmul v1 dt)) 0 1"
  define v2 where "v2 = (if (x1 \<le> 0 \<and> v1 < 0) \<or> (x1 \<ge> 1 \<and> v1 > 0) then 0 else v1)"
  have va: "velocity (accelerate dt p) = v1"
    by (simp add: accelerate_def v1_def D_def)
  have px: "position (step dt p) = x1"
    by (simp add: position_step va x1_def)
  have vx: "velocity (step dt p) = v2"
    unfolding v2_def by (simp only: velocity_step px va)
  have sp: "step_spec dt p = \<lparr>position = x1, velocity = v2, targetVel = targetVel p\<rparr>"
    unfolding step_spec_def Let_def dv [symmetric] D_def [symmetric] v1_def [symmetric]
    by (simp add: x1_def v2_def clamp_max_min)
  have "step dt p = \<lparr>position = position (step dt p), velocity = velocity (step dt p),
      targetVel = targetVel (step dt p)\<rparr>"
    by simp
  then have a: "step dt p = step_spec dt p"
    by (simp only: px vx targetVel_step sp)
  have b: "0 \<le> position (step dt p) \<and> position (step dt p) \<le> 1"
    using clamp_bounds [of 0 1] by (simp add: position_step)
  have c: "\<bar>clampedDv dt p\<bar> \<le> fmul accel dt"
    using m by (rule clampedDv_abs)
  have d: "velocity (accelerate dt p) = rd (rd (velocity p) + clampedDv dt p)"
    by (rule velocity_accelerate)
  have e: "\<bar>velocity (accelerate dt p) - (rd (velocity p) + clampedDv dt p)\<bar>
           \<le> max (\<bar>rd (velocity p) + clampedDv dt p\<bar> / 2 ^ 53) (1 / 2 ^ 1075)"
    unfolding d by (rule rd_err)
  have f: "\<bar>velocity (accelerate dt p) - rd (velocity p)\<bar>
           \<le> fmul accel dt + max (\<bar>rd (velocity p) + clampedDv dt p\<bar> / 2 ^ 53) (1 / 2 ^ 1075)"
    using c e by linarith
  from a b c d e f show ?thesis
    by (simp add: accel_def)
qed

theorem step_refines_spec_witness:
  "(0::real) < 0.02 \<and>
   step 0.02 \<lparr>position = 0.5, velocity = 0, targetVel = 0.35\<rparr>
     = \<lparr>position = 4514408266476185 / 2 ^ 53, velocity = 1080863910568919 / 2 ^ 54, targetVel = 0.35\<rparr> \<and>
   step_spec 0.02 \<lparr>position = 0.5, velocity = 0, targetVel = 0.35\<rparr>
     = \<lparr>position = 4514408266476185 / 2 ^ 53, velocity = 1080863910568919 / 2 ^ 54, targetVel = 0.35\<rparr> \<and>
   fmul accel 0.02 = 1080863910568919 / 2 ^ 54"
proof -
  define d0 :: real where "d0 = 0.02"
  define p0 where "p0 = \<lparr>position = 0.5, velocity = 0, targetVel = 0.35\<rparr>"
  define M :: real where "M = 1080863910568919 / 2 ^ 54"
  define D :: real where "D = 3152519739159347 / 2 ^ 53"
  define X :: real where "X = 4514408266476185 / 2 ^ 53"
  have m: "fmul accel d0 = M"
    by (simp add: fmul_def accel_def rd_3 rd_002 d0_def M_def) (simp add: rd_eval)
  have d: "fsub (targetVel p0) (velocity p0) = D"
    by (simp add: fsub_def rd_0 p0_def D_def) (simp add: rd_eval)
  have mm: "max (- M) (min M D) = M"
    by (simp add: M_def D_def)
  have v: "fadd (velocity p0) (max (- M) (min M D)) = M"
    unfolding mm by (simp add: fadd_def rd_0 p0_def M_def) (simp add: rd_eval)
  have x: "fadd (position p0) (fmul M d0) = X"
    by (simp add: fadd_def fmul_def rd_002 p0_def M_def d0_def X_def) (simp add: rd_eval)
  have "step_spec d0 p0 = \<lparr>position = max 0 (min 1 X),
      velocity = (if (max 0 (min 1 X) \<le> 0 \<and> M < 0) \<or> (max 0 (min 1 X) \<ge> 1 \<and> M > 0) then 0 else M),
      targetVel = targetVel p0\<rparr>"
    using m d v x by (rule step_spec_eval)
  moreover have "max 0 (min 1 X) = X" "\<not> X \<le> 0" "\<not> X \<ge> 1"
    by (simp_all add: X_def)
  ultimately have sp: "step_spec d0 p0 = \<lparr>position = X, velocity = M, targetVel = 0.35\<rparr>"
    by (simp add: p0_def)
  have "0 < d0"
    by (simp add: d0_def)
  then have "step d0 p0 = step_spec d0 p0"
    using step_refines_spec [of d0 p0] by simp
  with sp m have "(0::real) < d0 \<and>
      step d0 p0 = \<lparr>position = X, velocity = M, targetVel = 0.35\<rparr> \<and>
      step_spec d0 p0 = \<lparr>position = X, velocity = M, targetVel = 0.35\<rparr> \<and> fmul accel d0 = M"
    by (simp add: d0_def)
  then show ?thesis
    unfolding d0_def p0_def M_def X_def .
qed













section \<open>The lift scenario on the scan loop\<close>











lemma plant_with_target [simp]:
  "position (q\<lparr>targetVel := t\<rparr>) = position q" "velocity (q\<lparr>targetVel := t\<rparr>) = velocity q"
  by simp_all

























end
